theory Spec2Isabelle
  imports Main "HOL-Library.Sublist" "HOL-Library.AList"
begin

section \<open>Strings as the source uses them\<close>

text \<open>
  The source is Python 2 (\<open>itertools.izip\<close>, \<open>unicode\<close>): a \<open>str\<close> is a byte string,
  modelled as \<open>string\<close>.  The four string operations the statement builder relies on are
  \<open>re.search(r'^set search_path', q, re.I)\<close>, \<open>str.split\<close>, \<open>str.find\<close> and \<open>str.replace\<close>.
\<close>

definition lower_ascii :: "char \<Rightarrow> char" where
  \<comment> \<open>\<open>re.I\<close> on a byte string folds the ASCII letters only.\<close>
  "lower_ascii c =
     (case map_of (zip ''ABCDEFGHIJKLMNOPQRSTUVWXYZ'' ''abcdefghijklmnopqrstuvwxyz'') c of
        Some l \<Rightarrow> l
      | None \<Rightarrow> c)"

definition starts_set_search_path :: "string \<Rightarrow> bool" where
  \<comment> \<open>\<open>re.search(r'^set search_path', query, re.I)\<close>: without \<open>re.M\<close> the anchor is the
      start of the string, so this is a case-insensitive prefix test.\<close>
  "starts_set_search_path q = (map lower_ascii (take 15 q) = ''set search_path'')"

fun contains_str :: "string \<Rightarrow> string \<Rightarrow> bool" where
  \<comment> \<open>\<open>s.find(sub) > -1\<close>\<close>
  "contains_str sub [] = (sub = [])"
| "contains_str sub (c # cs) = (prefix sub (c # cs) \<or> contains_str sub cs)"

function replace_str :: "string \<Rightarrow> string \<Rightarrow> string \<Rightarrow> string" where
  \<comment> \<open>\<open>s.replace(old, new)\<close>: one pass from the left over non-overlapping occurrences;
      the replacement text is not scanned again.  With an empty \<open>old\<close> Python puts
      \<open>new\<close> before every character and at the end.\<close>
  "replace_str old new [] = (if old = [] then new else [])"
| "replace_str old new (c # cs) =
     (if old = [] then new @ c # replace_str old new cs
      else if prefix old (c # cs) then new @ replace_str old new (drop (length old) (c # cs))
      else c # replace_str old new cs)"
  by pat_completeness auto
termination
  by (relation "measure (\<lambda>(old, new, s). length s)") auto

function split_from :: "string \<Rightarrow> string \<Rightarrow> string \<Rightarrow> string list" where
  \<comment> \<open>The scan of \<open>s.split(sep)\<close> for a non-empty \<open>sep\<close>; \<open>acc\<close> is the segment read so
      far, reversed.\<close>
  "split_from sep acc [] = [rev acc]"
| "split_from sep acc (c # cs) =
     (if sep \<noteq> [] \<and> prefix sep (c # cs)
      then rev acc # split_from sep [] (drop (length sep) (c # cs))
      else split_from sep (c # acc) cs)"
  by pat_completeness auto
termination
  by (relation "measure (\<lambda>(sep, acc, s). length s)") auto

definition split_str :: "string \<Rightarrow> string \<Rightarrow> string list" where
  \<comment> \<open>\<open>s.split(sep)\<close>.  The source only splits on the constant \<open>"%s"\<close>; an empty
      separator, for which Python raises ValueError, does not occur.\<close>
  "split_str sep s = split_from sep [] s"

definition join_str :: "string \<Rightarrow> string list \<Rightarrow> string" where
  \<comment> \<open>\<open>sep.join(xs)\<close>\<close>
  "join_str sep xs = (case xs of [] \<Rightarrow> [] | y # ys \<Rightarrow> y @ concat (map (\<lambda>z. sep @ z) ys))"


definition seam_free :: "string \<Rightarrow> string \<Rightarrow> string \<Rightarrow> bool" where
  \<comment> \<open>A property of the text \<open>new\<close> that \<open>replace\<close> puts in for \<open>old\<close>, used to state when
      no token \<open>t\<close> can come out of a replacement: no end piece of \<open>new\<close> begins \<open>t\<close> or
      holds it, and no end piece of \<open>t\<close>, other than one that also begins \<open>old\<close>, begins
      \<open>new\<close> or holds it.\<close>
  "seam_free old new t =
     ((\<forall>w\<in>set (suffixes new). w \<noteq> [] \<longrightarrow> \<not> prefix w t \<and> \<not> prefix t w) \<and>
      (\<forall>x\<in>set (suffixes t). x \<noteq> [] \<and> \<not> prefix x old \<longrightarrow> \<not> prefix x new \<and> \<not> prefix new x))"

section \<open>Values, errors, rows and the driver\<close>

datatype pyval = PNone | PInt int | PStr string | PTuple "pyval list"

datatype error =
    OperationalError string  \<comment> \<open>\<open>psycopg2.OperationalError\<close>\<close>
  | ProgrammingError string  \<comment> \<open>\<open>psycopg2.ProgrammingError\<close>\<close>
  | OtherError string        \<comment> \<open>any other exception\<close>
  | MultipleRows             \<comment> \<open>\<open>Exception("Multiple rows returned for Database.get() query")\<close>\<close>
  | UnexpectedKeyword        \<comment> \<open>the TypeError of a call with a keyword the signature lacks\<close>

datatype log_entry =
    LogError string "string list"  \<comment> \<open>\<open>logging.error(fmt, *args)\<close>\<close>
  | LogInfo string                 \<comment> \<open>\<open>logging.info(msg)\<close>\<close>

text \<open>Every call that reaches the driver is recorded, in order.\<close>

datatype driver_call =
    Connect
  | CloseSession nat
  | RegisterType string
  | RegisterHstore nat
  | OpenCursor nat
  | CloseCursor nat
  | Execute nat string "pyval list"
  | ExecuteMany nat string "pyval list"
  | Mogrify nat string "pyval list"

text \<open>What a cursor holds after a successful \<open>cursor.execute\<close>: the column names of
  \<open>cursor.description\<close> (\<open>None\<close> when the statement has no result set), the tuples of
  \<open>cursor.fetchall()\<close> and \<open>cursor.rowcount\<close>.\<close>

record cursor_state =
  description :: "string list option"
  fetchall :: "pyval list list"
  rowcount :: int

text \<open>The \<open>Connection\<close> object: its attributes, followed by what it has logged and the
  calls it has made to the driver.  Sessions and cursors are numbered as they are opened.\<close>

record conn =
  host :: string
  timezone :: "string option"
  db :: "nat option"
  register_types :: "string list"
  search_path :: "string option"
  change_path :: "string option"
  logging :: bool
  logged :: "log_entry list"
  trace :: "driver_call list"
  sessions :: nat
  cursors :: nat

text \<open>The driver and the server behind it are not part of the source: their answers are
  parameters, and may depend on everything that has happened so far.\<close>

record driver =
  drv_connect :: "conn \<Rightarrow> error option"
  drv_register_hstore :: "conn \<Rightarrow> error option"
  drv_cursor :: "conn \<Rightarrow> error option"
  drv_execute :: "conn \<Rightarrow> nat \<Rightarrow> string \<Rightarrow> pyval list \<Rightarrow> error + cursor_state"
  drv_executemany :: "conn \<Rightarrow> nat \<Rightarrow> string \<Rightarrow> pyval list \<Rightarrow> error option"
  drv_mogrify :: "conn \<Rightarrow> nat \<Rightarrow> string \<Rightarrow> pyval list \<Rightarrow> error + string"

type_synonym row = "(string \<times> pyval) list"

definition Row :: "(string \<times> pyval) list \<Rightarrow> row" where
  \<comment> \<open>\<open>Row(pairs)\<close>, a dict built from pairs: a repeated key keeps its place and takes the
      later value.\<close>
  "Row pairs = fold (\<lambda>(k, v) d. AList.update k v d) pairs []"

definition truthy :: "string option \<Rightarrow> bool" where
  \<comment> \<open>Python's truth value of an attribute that is \<open>None\<close> or a string.\<close>
  "truthy v = (case v of None \<Rightarrow> False | Some s \<Rightarrow> s \<noteq> [])"

section \<open>Connection lifecycle\<close>

definition close :: "conn \<Rightarrow> conn" where
  "close c =
     (case db c of
        None \<Rightarrow> c
      | Some s \<Rightarrow> c\<lparr>db := None, trace := trace c @ [CloseSession s]\<rparr>)"

definition reconnect :: "driver \<Rightarrow> conn \<Rightarrow> (error + unit) \<times> conn" where
  "reconnect d c =
     (let c1 = close c in
      case drv_connect d c1 of
        Some e \<Rightarrow> (Inl e, c1\<lparr>trace := trace c1 @ [Connect]\<rparr>)
      | None \<Rightarrow>
          (let s = sessions c1;
               c2 = c1\<lparr>db := Some s, sessions := Suc s,
                       trace := trace c1 @ Connect # RegisterType ''MONEY'' #
                                map RegisterType (register_types c1) @ [RegisterHstore s]\<rparr>
           in case drv_register_hstore d c2 of
                None \<Rightarrow> (Inr (), c2)
              | Some (ProgrammingError m) \<Rightarrow> (Inr (), c2)
              | Some e \<Rightarrow> (Inl e, c2)))"

definition path :: "conn \<Rightarrow> string option \<Rightarrow> conn" where
  "path c sp = c\<lparr>change_path := sp\<rparr>"

definition register_type :: "conn \<Rightarrow> string \<Rightarrow> conn" where
  \<comment> \<open>Only the name of the registered type is kept.\<close>
  "register_type c name =
     (let c1 = c\<lparr>register_types := register_types c @ [name]\<rparr>
      in if db c1 \<noteq> None then c1\<lparr>trace := trace c1 @ [RegisterType name]\<rparr> else c1)"

definition priv_ensure_connected :: "driver \<Rightarrow> conn \<Rightarrow> (error + unit) \<times> conn" where
  "priv_ensure_connected d c = (if db c = None then reconnect d c else (Inr (), c))"

definition priv_cursor :: "driver \<Rightarrow> conn \<Rightarrow> (error + nat) \<times> conn" where
  \<comment> \<open>\<open>self._db.cursor()\<close> on \<open>None\<close> would be an AttributeError; after a successful
      \<open>_ensure_connected\<close> the session is there.\<close>
  "priv_cursor d c =
     (case priv_ensure_connected d c of
        (Inl e, c1) \<Rightarrow> (Inl e, c1)
      | (Inr u, c1) \<Rightarrow>
          (case db c1 of
             None \<Rightarrow> (Inl (OtherError ''AttributeError''), c1)
           | Some s \<Rightarrow>
               (case drv_cursor d c1 of
                  Some e \<Rightarrow> (Inl e, c1)
                | None \<Rightarrow>
                    (Inr (cursors c1),
                     c1\<lparr>cursors := Suc (cursors c1),
                        trace := trace c1 @ [OpenCursor (cursors c1)]\<rparr>))))"

definition close_cursor :: "nat \<Rightarrow> conn \<Rightarrow> conn" where
  \<comment> \<open>\<open>cursor.close()\<close>\<close>
  "close_cursor k c = c\<lparr>trace := trace c @ [CloseCursor k]\<rparr>"


section \<open>Building the statement\<close>

definition priv_set_search_path :: "conn \<Rightarrow> string \<Rightarrow> string \<times> conn" where
  "priv_set_search_path c q =
     (let (q1, c1) =
            (if truthy (change_path c) \<and> \<not> starts_set_search_path q
             then (''set search_path = '' @ the (change_path c) @ '';'' @ q,
                   c\<lparr>change_path := None\<rparr>)
             else if truthy (search_path c) \<and> \<not> starts_set_search_path q
             then (''set search_path = '' @ the (search_path c) @ '';'' @ q, c)
             else (q, c));
          q2 = (if truthy (timezone c1)
                then ''set timezone = '' @ [CHR 0x27] @ the (timezone c1) @ [CHR 0x27] @ '';'' @ q1
                else q1)
      in (q2, c1))"

definition insert_at :: "nat \<Rightarrow> 'a \<Rightarrow> 'a list \<Rightarrow> 'a list" where
  \<comment> \<open>\<open>xs.insert(i, v)\<close> for \<open>i \<ge> 0\<close>: an index past the end appends.\<close>
  "insert_at i v xs = take i xs @ v # drop i xs"

definition parampos :: "string \<Rightarrow> nat" where
  \<comment> \<open>\<open>min([x for x, part in enumerate(query.split("%s")) if part.find('__data__') > -1] or [0])\<close>\<close>
  "parampos q =
     (let hits = [x. (x, part) \<leftarrow> enumerate 0 (split_str ''%s'' q),
                     contains_str ''__data__'' part]
      in min_list (if hits = [] then [0] else hits))"

definition rewrite_kwargs ::
  "string \<Rightarrow> pyval list \<Rightarrow> (string \<times> pyval) list \<Rightarrow> string \<times> pyval list" where
  \<comment> \<open>The body of \<open>if kwargs:\<close> in \<open>_execute\<close>.  \<open>kwargs\<close> is the list of the keyword
      arguments, name and value, in the caller's left-to-right order, the order in which
      \<open>for key in kwargs\<close> is taken to visit them.\<close>
  "rewrite_kwargs q parameters kwargs =
     (let keys = map fst kwargs;
          vals = map (\<lambda>kv. ''%s'') kwargs;
          datas = map (\<lambda>kv. fst kv @ ''=%s'') kwargs;
          args = map snd kwargs;
          pos = parampos q;
          parameters1 = fold (insert_at pos) (rev args) parameters;
          q1 = replace_str ''__data__'' (join_str '','' datas) q;
          q2 = replace_str ''__keys__'' (join_str '','' keys) q1;
          q3 = replace_str ''__values__'' (join_str '','' vals) q2
      in (q3, parameters1))"

definition is_space :: "char \<Rightarrow> bool" where
  \<comment> \<open>\<open>\s\<close> on a byte string\<close>
  "is_space c = (c \<in> set [CHR 0x20, CHR 0x09, CHR 0x0A, CHR 0x0B, CHR 0x0C, CHR 0x0D])"

fun collapse_newlines :: "bool \<Rightarrow> string \<Rightarrow> string" where
  \<comment> \<open>\<open>re.sub(r"\n\s*", " ", s)\<close>; the flag says that a match is being consumed.\<close>
  "collapse_newlines b [] = []"
| "collapse_newlines b (c # cs) =
     (if c = CHR 0x0A then (if b then collapse_newlines True cs
                            else CHR 0x20 # collapse_newlines True cs)
      else if b \<and> is_space c then collapse_newlines True cs
      else c # collapse_newlines False cs)"

definition log_statement ::
  "driver \<Rightarrow> conn \<Rightarrow> nat \<Rightarrow> string \<Rightarrow> pyval list \<Rightarrow> (error + unit) \<times> conn" where
  \<comment> \<open>\<open>if self.logging: logging.info(re.sub(..., cursor.mogrify(query, parameters)))\<close>\<close>
  "log_statement d c k q ps =
     (if logging c
      then (case drv_mogrify d c k q ps of
              Inl e \<Rightarrow> (Inl e, c\<lparr>trace := trace c @ [Mogrify k q ps]\<rparr>)
            | Inr txt \<Rightarrow>
                (Inr (), c\<lparr>trace := trace c @ [Mogrify k q ps],
                           logged := logged c @ [LogInfo (collapse_newlines False txt)]\<rparr>))
      else (Inr (), c))"

definition on_operational :: "string \<Rightarrow> conn \<Rightarrow> error \<Rightarrow> conn" where
  \<comment> \<open>\<open>except psycopg2.OperationalError as e: logging.error(fmt, self.host, e); self.close()\<close>;
      any other exception passes through untouched.\<close>
  "on_operational fmt c e =
     (case e of
        OperationalError m \<Rightarrow> close (c\<lparr>logged := logged c @ [LogError fmt [host c, m]]\<rparr>)
      | _ \<Rightarrow> c)"

definition priv_execute ::
  "driver \<Rightarrow> conn \<Rightarrow> nat \<Rightarrow> string \<Rightarrow> pyval list \<Rightarrow> (string \<times> pyval) list
     \<Rightarrow> (error + cursor_state) \<times> conn" where
  "priv_execute d c k q parameters kwargs =
     (let (q1, c1) = priv_set_search_path c q;
          (q2, ps) = (if kwargs \<noteq> [] then rewrite_kwargs q1 parameters kwargs
                      else (q1, parameters));
          fmt = ''Error connecting to PostgreSQL on %s, %s''
      in case log_statement d c1 k q2 ps of
           (Inl e, c2) \<Rightarrow> (Inl e, on_operational fmt c2 e)
         | (Inr u, c2) \<Rightarrow>
             (let c3 = c2\<lparr>trace := trace c2 @ [Execute k q2 ps]\<rparr>
              in case drv_execute d c2 k q2 ps of
                   Inl e \<Rightarrow> (Inl e, on_operational fmt c3 e)
                 | Inr cs \<Rightarrow> (Inr cs, c3)))"

definition priv_executemany ::
  "driver \<Rightarrow> conn \<Rightarrow> nat \<Rightarrow> string \<Rightarrow> pyval list \<Rightarrow> (error + unit) \<times> conn" where
  "priv_executemany d c k q parameters =
     (let (q1, c1) = priv_set_search_path c q;
          fmt = ''Error connecting to PostgreSQL on %s, e''
      in case log_statement d c1 k q1 parameters of
           (Inl e, c2) \<Rightarrow> (Inl e, on_operational fmt c2 e)
         | (Inr u, c2) \<Rightarrow>
             (let c3 = c2\<lparr>trace := trace c2 @ [ExecuteMany k q1 parameters]\<rparr>
              in case drv_executemany d c2 k q1 parameters of
                   Some e \<Rightarrow> (Inl e, on_operational fmt c3 e)
                 | None \<Rightarrow> (Inr (), c3)))"

section \<open>The query surface\<close>

definition mogrify :: "driver \<Rightarrow> conn \<Rightarrow> string \<Rightarrow> pyval list \<Rightarrow> (error + string) \<times> conn" where
  "mogrify d c q parameters =
     (case priv_cursor d c of
        (Inl e, c1) \<Rightarrow> (Inl e, c1)
      | (Inr k, c1) \<Rightarrow>
          (let c2 = c1\<lparr>trace := trace c1 @ [Mogrify k q parameters]\<rparr>
           in case drv_mogrify d c1 k q parameters of
                Inl e \<Rightarrow> (Inl e, close_cursor k c2)
              | Inr txt \<Rightarrow> (Inr txt, c2)))"

definition query ::
  "driver \<Rightarrow> conn \<Rightarrow> string \<Rightarrow> pyval list \<Rightarrow> (string \<times> pyval) list
     \<Rightarrow> (error + row list option) \<times> conn" where
  "query d c q parameters kwargs =
     (case priv_cursor d c of
        (Inl e, c1) \<Rightarrow> (Inl e, c1)
      | (Inr k, c1) \<Rightarrow>
          (case priv_execute d c1 k q parameters kwargs of
             (Inl e, c2) \<Rightarrow> (Inl e, close_cursor k c2)
           | (Inr cs, c2) \<Rightarrow>
               (case description cs of
                  Some (n # ns) \<Rightarrow>
                    (Inr (Some (map (\<lambda>r. Row (zip (n # ns) r)) (fetchall cs))), c2)
                | _ \<Rightarrow> (Inr None, c2))))"

definition execute ::
  "driver \<Rightarrow> conn \<Rightarrow> string \<Rightarrow> pyval list \<Rightarrow> (string \<times> pyval) list
     \<Rightarrow> (error + row list option) \<times> conn" where
  \<comment> \<open>\<open>def execute(self, query, *parameters)\<close>: the signature has no \<open>**kwargs\<close>, so a call
      with a keyword argument is a TypeError before the body runs.\<close>
  "execute d c q parameters kwargs =
     (if kwargs \<noteq> [] then (Inl UnexpectedKeyword, c) else query d c q parameters [])"

definition get ::
  "driver \<Rightarrow> conn \<Rightarrow> string \<Rightarrow> pyval list \<Rightarrow> (string \<times> pyval) list
     \<Rightarrow> (error + row option) \<times> conn" where
  "get d c q parameters kwargs =
     (case query d c q parameters kwargs of
        (Inl e, c1) \<Rightarrow> (Inl e, c1)
      | (Inr rows, c1) \<Rightarrow>
          (if rows = None \<or> rows = Some [] then (Inr None, c1)
           else if length (the rows) > 1 then (Inl MultipleRows, c1)
           else (Inr (Some (hd (the rows))), c1)))"

definition executemany ::
  "driver \<Rightarrow> conn \<Rightarrow> string \<Rightarrow> pyval list \<Rightarrow> (error + bool) \<times> conn" where
  "executemany d c q parameters =
     (case priv_cursor d c of
        (Inl e, c1) \<Rightarrow> (Inl e, c1)
      | (Inr k, c1) \<Rightarrow>
          (case priv_executemany d c1 k q parameters of
             (Inl e, c2) \<Rightarrow> (Inl e, close_cursor k c2)
           | (Inr u, c2) \<Rightarrow> (Inr True, c2)))"

definition execute_rowcount ::
  "driver \<Rightarrow> conn \<Rightarrow> string \<Rightarrow> pyval list \<Rightarrow> (string \<times> pyval) list
     \<Rightarrow> (error + int) \<times> conn" where
  "execute_rowcount d c q parameters kwargs =
     (case priv_cursor d c of
        (Inl e, c1) \<Rightarrow> (Inl e, c1)
      | (Inr k, c1) \<Rightarrow>
          (case priv_execute d c1 k q parameters kwargs of
             (Inl e, c2) \<Rightarrow> (Inl e, close_cursor k c2)
           | (Inr cs, c2) \<Rightarrow> (Inr (rowcount cs), close_cursor k c2)))"

definition file_execute :: "driver \<Rightarrow> conn \<Rightarrow> string \<Rightarrow> (error + unit) \<times> conn" where
  \<comment> \<open>\<open>file(path)\<close> from \<open>if _execute:\<close> on; \<open>sql\<close> is the text that reading \<open>path\<close> and
      inlining its \<open>\ir\<close> directives has produced.\<close>
  "file_execute d c sql =
     (case priv_cursor d c of
        (Inl e, c1) \<Rightarrow> (Inl e, c1)
      | (Inr k, c1) \<Rightarrow>
          (let (sql1, c2) =
                 (if truthy (change_path c1)
                  then (''set search_path = '' @ the (change_path c1) @ '';'' @ sql,
                        c1\<lparr>change_path := None\<rparr>)
                  else if truthy (search_path c1)
                  then (''set search_path = '' @ the (search_path c1) @ '';'' @ sql, c1)
                  else (sql, c1));
               c3 = c2\<lparr>trace := trace c2 @ [Execute k sql1 []]\<rparr>
           in case drv_execute d c2 k sql1 [] of
                Inl e \<Rightarrow> (Inl e, c3)
              | Inr cs \<Rightarrow> (Inr (), c3)))"


section \<open>Fixtures\<close>

text \<open>Literal cursor results, a driver that always answers with a given one, a driver whose
  transport is down until the connection has logged an error, and a connected connection
  with the constructor's default timezone.\<close>

definition no_result :: cursor_state where
  "no_result = \<lparr>description = None, fetchall = [], rowcount = 1\<rparr>"

definition no_rows :: cursor_state where
  "no_rows = \<lparr>description = Some [''id'', ''name''], fetchall = [], rowcount = 0\<rparr>"

definition one_row :: cursor_state where
  "one_row = \<lparr>description = Some [''id'', ''name''], fetchall = [[PInt 1, PStr ''a'']],
              rowcount = 1\<rparr>"

definition two_rows :: cursor_state where
  "two_rows = \<lparr>description = Some [''id'', ''name''],
               fetchall = [[PInt 1, PStr ''a''], [PInt 2, PStr ''b'']], rowcount = 2\<rparr>"

definition no_columns :: cursor_state where
  "no_columns = \<lparr>description = Some [], fetchall = [[]], rowcount = 1\<rparr>"

definition fixture_driver :: "cursor_state \<Rightarrow> driver" where
  "fixture_driver cs =
     \<lparr>drv_connect = (\<lambda>c. None), drv_register_hstore = (\<lambda>c. None), drv_cursor = (\<lambda>c. None),
      drv_execute = (\<lambda>c k q ps. Inr cs), drv_executemany = (\<lambda>c k q ps. None),
      drv_mogrify = (\<lambda>c k q ps. Inr q)\<rparr>"

definition flaky_driver :: "cursor_state \<Rightarrow> driver" where
  "flaky_driver cs =
     \<lparr>drv_connect = (\<lambda>c. None), drv_register_hstore = (\<lambda>c. None), drv_cursor = (\<lambda>c. None),
      drv_execute = (\<lambda>c k q ps. if logged c = [] then Inl (OperationalError ''server closed'')
                                  else Inr cs),
      drv_executemany = (\<lambda>c k q ps. if logged c = []
                                      then Some (OperationalError ''server closed'') else None),
      drv_mogrify = (\<lambda>c k q ps. Inr q)\<rparr>"

definition fixture_conn :: "driver \<Rightarrow> conn" where
  \<comment> \<open>The attributes a \<open>Connection("127.0.0.1")\<close> starts with (timezone \<open>"+00"\<close>, no
      search path, no override, logging off), connected by \<open>reconnect\<close>.\<close>
  "fixture_conn d =
     snd (reconnect d
            \<lparr>host = ''127.0.0.1'', timezone = Some ''+00'', db = None, register_types = [],
             search_path = None, change_path = None, logging = False,
             logged = [], trace = [], sessions = 0, cursors = 0\<rparr>)"

section \<open>Facts about the string operations\<close>

lemma contains_str_iff: "contains_str sub s \<longleftrightarrow> (\<exists>xs ys. s = xs @ sub @ ys)"
proof (induction s)
  case Nil then show ?case by auto
next
  case (Cons c cs)
  show ?case
  proof
    assume "contains_str sub (c # cs)"
    then consider "prefix sub (c # cs)" | "contains_str sub cs" by auto
    then show "\<exists>xs ys. c # cs = xs @ sub @ ys"
    proof cases
      case 1
      then obtain ys where "c # cs = sub @ ys" by (auto simp: prefix_def)
      then have "c # cs = [] @ sub @ ys" by simp
      then show ?thesis by blast
    next
      case 2
      with Cons obtain xs ys where "cs = xs @ sub @ ys" by blast
      then have "c # cs = (c # xs) @ sub @ ys" by simp
      then show ?thesis by blast
    qed
  next
    assume "\<exists>xs ys. c # cs = xs @ sub @ ys"
    then obtain xs ys where e: "c # cs = xs @ sub @ ys" by blast
    show "contains_str sub (c # cs)"
    proof (cases xs)
      case Nil
      with e have "prefix sub (c # cs)" by (simp add: prefix_def)
      then show ?thesis by simp
    next
      case (Cons a xs')
      with e have "cs = xs' @ sub @ ys" by simp
      with Cons.IH have "contains_str sub cs" by blast
      then show ?thesis by simp
    qed
  qed
qed

lemma contains_str_subset: "contains_str sub s \<Longrightarrow> set sub \<subseteq> set s"
  by (auto simp: contains_str_iff)

lemma prefix_append_cases: "prefix p (u @ r) \<Longrightarrow> prefix p u \<or> prefix u p"
  by (metis prefix_append prefixI prefix_same_cases)

lemma replace_prefix_cases:
  "old \<noteq> [] \<Longrightarrow> prefix p (replace_str old new s) \<Longrightarrow>
   prefix p s \<or> (\<exists>a x. p = a @ x \<and> x \<noteq> [] \<and> prefix (a @ old) s \<and> (prefix x new \<or> prefix new x))"
proof (induction old new s arbitrary: p rule: replace_str.induct)
  case (1 old new)
  then show ?case by simp
next
  case (2 old new c cs)
  show ?case
  proof (cases "prefix old (c # cs)")
    case True
    with "2.prems" have pr: "prefix p (new @ replace_str old new (drop (length old) (c # cs)))"
      by simp
    show ?thesis
    proof (cases "p = []")
      case True then show ?thesis by simp
    next
      case False
      from pr have "prefix p new \<or> prefix new p" by (rule prefix_append_cases)
      with False True have "p = [] @ p \<and> p \<noteq> [] \<and> prefix ([] @ old) (c # cs) \<and>
          (prefix p new \<or> prefix new p)" by simp
      then show ?thesis by blast
    qed
  next
    case False
    with "2.prems" have pr: "prefix p (c # replace_str old new cs)" by simp
    show ?thesis
    proof (cases p)
      case Nil then show ?thesis by simp
    next
      case (Cons b p')
      with pr have bc: "b = c" and pr': "prefix p' (replace_str old new cs)" by auto
      from "2.IH"(3)[OF "2.prems"(1) False "2.prems"(1) pr']
      consider "prefix p' cs"
        | a x where "p' = a @ x" "x \<noteq> []" "prefix (a @ old) cs" "prefix x new \<or> prefix new x"
        by blast
      then show ?thesis
      proof cases
        case 1
        then show ?thesis using Cons bc by simp
      next
        case 2
        then have "p = (c # a) @ x \<and> x \<noteq> [] \<and> prefix ((c # a) @ old) (c # cs) \<and>
            (prefix x new \<or> prefix new x)"
          using Cons bc by simp
        then show ?thesis by blast
      qed
    qed
  qed
qed

lemma contains_append_cases:
  "contains_str t (u @ r) \<Longrightarrow>
   (\<exists>w. w \<noteq> [] \<and> suffix w u \<and> prefix t (w @ r)) \<or> contains_str t r"
proof (induction u)
  case Nil then show ?case by simp
next
  case (Cons a u)
  from Cons.prems consider "prefix t ((a # u) @ r)" | "contains_str t (u @ r)" by auto
  then show ?case
  proof cases
    case 1
    have "a # u \<noteq> [] \<and> suffix (a # u) (a # u) \<and> prefix t ((a # u) @ r)" using 1 by simp
    then show ?thesis by blast
  next
    case 2
    with Cons.IH consider w where "w \<noteq> []" "suffix w u" "prefix t (w @ r)" | "contains_str t r"
      by blast
    then show ?thesis
    proof cases
      case 1
      then have "w \<noteq> [] \<and> suffix w (a # u) \<and> prefix t (w @ r)" by (simp add: suffix_Cons)
      then show ?thesis by blast
    next
      case 2 then show ?thesis by simp
    qed
  qed
qed

lemma seam_free_inside:
  assumes "seam_free old new t" "contains_str t (new @ r)"
  shows "contains_str t r"
proof -
  from contains_append_cases[OF assms(2)]
  consider w where "w \<noteq> []" "suffix w new" "prefix t (w @ r)" | "contains_str t r" by blast
  then show ?thesis
  proof cases
    case 1
    from 1(3) have "prefix t w \<or> prefix w t" by (rule prefix_append_cases)
    moreover from assms(1) 1(1,2) have "\<not> prefix w t \<and> \<not> prefix t w"
      unfolding seam_free_def by (simp add: in_set_suffixes)
    ultimately show ?thesis by blast
  next
    case 2 then show ?thesis .
  qed
qed

lemma seam_free_before:
  assumes "seam_free old new t" "old \<noteq> []" "prefix t (replace_str old new s)"
  shows "prefix t s"
proof -
  from replace_prefix_cases[OF assms(2,3)]
  consider "prefix t s"
    | a x where "t = a @ x" "x \<noteq> []" "prefix (a @ old) s" "prefix x new \<or> prefix new x"
    by blast
  then show ?thesis
  proof cases
    case 1 then show ?thesis .
  next
    case 2
    have sx: "suffix x t" using 2(1) by (simp add: suffix_def)
    show ?thesis
    proof (cases "prefix x old")
      case True
      then have "prefix (a @ x) (a @ old)" by simp
      with 2(1,3) show ?thesis using prefix_order.trans by blast
    next
      case False
      with assms(1) sx 2(2) have "\<not> prefix x new \<and> \<not> prefix new x"
        unfolding seam_free_def by (simp add: in_set_suffixes)
      with 2(4) show ?thesis by blast
    qed
  qed
qed

lemma contains_drop: "contains_str t (drop n s) \<Longrightarrow> contains_str t s"
proof (induction s arbitrary: n)
  case Nil then show ?case by simp
next
  case (Cons c cs)
  then show ?case by (cases n) auto
qed

lemma replace_keeps_absent:
  "seam_free old new t \<Longrightarrow> old \<noteq> [] \<Longrightarrow>
   contains_str t (replace_str old new s) \<Longrightarrow> contains_str t s"
proof (induction old new s rule: replace_str.induct)
  case (1 old new)
  then show ?case by simp
next
  case (2 old new c cs)
  show ?case
  proof (cases "prefix old (c # cs)")
    case True
    with "2.prems" have "contains_str t (new @ replace_str old new (drop (length old) (c # cs)))"
      by simp
    then have "contains_str t (replace_str old new (drop (length old) (c # cs)))"
      using seam_free_inside "2.prems"(1) by blast
    then have "contains_str t (drop (length old) (c # cs))"
      using "2.IH"(2) "2.prems"(1,2) True by blast
    then show ?thesis using contains_drop by blast
  next
    case False
    with "2.prems" have "contains_str t (c # replace_str old new cs)" by simp
    then consider "prefix t (c # replace_str old new cs)" | "contains_str t (replace_str old new cs)"
      by auto
    then show ?thesis
    proof cases
      case 1
      then have "prefix t (replace_str old new (c # cs))" using False "2.prems"(2) by simp
      then have "prefix t (c # cs)" using seam_free_before "2.prems"(1,2) by blast
      then show ?thesis by simp
    next
      case 2
      then have "contains_str t cs" using "2.IH"(3) "2.prems"(1,2) False by blast
      then show ?thesis by simp
    qed
  qed
qed

lemma replace_removes_all:
  "seam_free old new old \<Longrightarrow> old \<noteq> [] \<Longrightarrow> \<not> contains_str old (replace_str old new s)"
proof (induction old new s rule: replace_str.induct)
  case (1 old new)
  then show ?case by simp
next
  case (2 old new c cs)
  show ?case
  proof (cases "prefix old (c # cs)")
    case True
    have "\<not> contains_str old (replace_str old new (drop (length old) (c # cs)))"
      using "2.IH"(2) "2.prems" True by blast
    then have "\<not> contains_str old (new @ replace_str old new (drop (length old) (c # cs)))"
      using seam_free_inside "2.prems"(1) by blast
    then show ?thesis using True "2.prems"(2) by simp
  next
    case False
    have a: "\<not> contains_str old (replace_str old new cs)"
      using "2.IH"(3) "2.prems" False by blast
    have "\<not> prefix old (c # replace_str old new cs)"
    proof
      assume "prefix old (c # replace_str old new cs)"
      then have "prefix old (replace_str old new (c # cs))" using False "2.prems"(2) by simp
      then have "prefix old (c # cs)" using seam_free_before "2.prems"(1,2) by blast
      with False show False by simp
    qed
    with a show ?thesis using False "2.prems"(2) by simp
  qed
qed

lemma seam_free_by_heads:
  assumes "new \<noteq> []" "t \<noteq> []" "hd new \<notin> set t" "hd t \<notin> set new"
  shows "seam_free old new t"
  unfolding seam_free_def
proof (intro conjI ballI impI)
  fix w assume w: "w \<in> set (suffixes new)" "w \<noteq> []"
  then have sub: "set w \<subseteq> set new" by (auto simp: in_set_suffixes suffix_def)
  have hw: "hd w \<in> set w" using w(2) by simp
  show "\<not> prefix w t"
  proof
    assume "prefix w t"
    then have "hd t = hd w" using w(2) by (auto simp: prefix_def)
    with hw sub assms(4) show False by auto
  qed
  show "\<not> prefix t w"
  proof
    assume "prefix t w"
    then have "hd t = hd w" using assms(2) by (auto simp: prefix_def)
    with hw sub assms(4) show False by auto
  qed
next
  fix x assume x: "x \<in> set (suffixes t)" "x \<noteq> [] \<and> \<not> prefix x old"
  then have sub: "set x \<subseteq> set t" by (auto simp: in_set_suffixes suffix_def)
  have hx: "hd x \<in> set x" using x(2) by simp
  show "\<not> prefix x new"
  proof
    assume "prefix x new"
    then have "hd new = hd x" using x(2) by (auto simp: prefix_def)
    with hx sub assms(3) show False by auto
  qed
  show "\<not> prefix new x"
  proof
    assume "prefix new x"
    then have "hd new = hd x" using assms(1) by (auto simp: prefix_def)
    with hx sub assms(3) show False by auto
  qed
qed

lemma in_set_join_str:
  "x \<in> set (join_str sep xs) \<Longrightarrow> x \<in> set sep \<or> (\<exists>y\<in>set xs. x \<in> set y)"
  by (cases xs) (auto simp: join_str_def split: if_splits)

lemma length_insert_fold: "length (fold (insert_at i) vs xs) = length xs + length vs"
  by (induction vs arbitrary: xs) (auto simp: insert_at_def)

lemma vals_join_percent:
  "kw \<noteq> [] \<Longrightarrow> CHR ''%'' \<in> set (join_str '','' (map (\<lambda>kv. ''%s'') kw))"
  by (cases kw) (simp_all add: join_str_def)

lemma vals_join_underscore:
  "CHR ''_'' \<notin> set (join_str '','' (map (\<lambda>kv. ''%s'') kw))"
  using in_set_join_str[of "CHR ''_''" "'',''" "map (\<lambda>kv. ''%s'') kw"] by auto

lemma vals_join_hd:
  "kw \<noteq> [] \<Longrightarrow> hd (join_str '','' (map (\<lambda>kv. ''%s'') kw)) = CHR ''%''"
  by (cases kw) (simp_all add: join_str_def)

lemma vals_join_seam_free:
  assumes "kw \<noteq> []" "t \<noteq> []" "hd t = CHR ''_''" "CHR ''%'' \<notin> set t"
  shows "seam_free old (join_str '','' (map (\<lambda>kv. ''%s'') kw)) t"
proof (rule seam_free_by_heads)
  show "join_str '','' (map (\<lambda>kv. ''%s'') kw) \<noteq> []"
    using vals_join_percent[OF assms(1)] by auto
  show "t \<noteq> []" by (rule assms(2))
  show "hd (join_str '','' (map (\<lambda>kv. ''%s'') kw)) \<notin> set t"
    using vals_join_hd[OF assms(1)] assms(4) by simp
  show "hd t \<notin> set (join_str '','' (map (\<lambda>kv. ''%s'') kw))"
    using vals_join_underscore[of kw] assms(3) by simp
qed

text \<open>
  Claim C3, as the code has it.  For a non-empty keyword list and any template, the rewrite
  returns one parameter more per keyword, and the returned statement holds no
  \<open>__values__\<close> token.  It holds no \<open>__keys__\<close> token when the comma-joined key list is
  \<open>seam_free\<close> for \<open>__keys__\<close>, and no \<open>__data__\<close> token when the joined assignments and the
  joined key list are \<open>seam_free\<close> for \<open>__data__\<close>: the text put in cannot be completed to
  the token by what stands around it.  Keys such as \<open>id\<close>, \<open>user_id\<close> and \<open>_name\<close> are of
  that kind.
\<close>

theorem rewrite_kwargs_tokens:
  assumes "kw \<noteq> []"
  shows "length (snd (rewrite_kwargs q ps kw)) = length ps + length kw \<and>
         \<not> contains_str ''__values__'' (fst (rewrite_kwargs q ps kw)) \<and>
         (seam_free ''__keys__'' (join_str '','' (map fst kw)) ''__keys__'' \<longrightarrow>
            \<not> contains_str ''__keys__'' (fst (rewrite_kwargs q ps kw))) \<and>
         (seam_free ''__data__'' (join_str '','' (map (\<lambda>kv. fst kv @ ''=%s'') kw)) ''__data__'' \<and>
          seam_free ''__keys__'' (join_str '','' (map fst kw)) ''__data__'' \<longrightarrow>
            \<not> contains_str ''__data__'' (fst (rewrite_kwargs q ps kw)))"
proof -
  define N1 where "N1 = join_str '','' (map (\<lambda>kv. fst kv @ ''=%s'') kw)"
  define N2 where "N2 = join_str '','' (map fst kw)"
  define N3 where "N3 = join_str '','' (map (\<lambda>kv. ''%s'') kw)"
  define q1 where "q1 = replace_str ''__data__'' N1 q"
  define q2 where "q2 = replace_str ''__keys__'' N2 q1"
  define q3 where "q3 = replace_str ''__values__'' N3 q2"
  have fst_eq: "fst (rewrite_kwargs q ps kw) = q3"
    by (simp add: rewrite_kwargs_def Let_def q3_def q2_def q1_def N1_def N2_def N3_def)
  have len: "length (snd (rewrite_kwargs q ps kw)) = length ps + length kw"
    by (simp add: rewrite_kwargs_def Let_def length_insert_fold)
  have s3v: "seam_free ''__values__'' N3 ''__values__''"
    unfolding N3_def by (rule vals_join_seam_free[OF assms]) simp_all
  have s3d: "seam_free ''__values__'' N3 ''__data__''"
    unfolding N3_def by (rule vals_join_seam_free[OF assms]) simp_all
  have s3k: "seam_free ''__values__'' N3 ''__keys__''"
    unfolding N3_def by (rule vals_join_seam_free[OF assms]) simp_all
  have "\<not> contains_str ''__values__'' q3"
    unfolding q3_def by (rule replace_removes_all[OF s3v]) simp
  then have vals: "\<not> contains_str ''__values__'' (fst (rewrite_kwargs q ps kw))"
    unfolding fst_eq .
  have keys: "\<not> contains_str ''__keys__'' (fst (rewrite_kwargs q ps kw))"
    if h: "seam_free ''__keys__'' (join_str '','' (map fst kw)) ''__keys__''"
  proof -
    have k2: "\<not> contains_str ''__keys__'' q2"
      unfolding q2_def by (rule replace_removes_all[OF h[folded N2_def]]) simp
    have "contains_str ''__keys__'' q3 \<Longrightarrow> contains_str ''__keys__'' q2"
      unfolding q3_def by (rule replace_keeps_absent[OF s3k]) simp_all
    with k2 show ?thesis unfolding fst_eq by blast
  qed
  have datas: "\<not> contains_str ''__data__'' (fst (rewrite_kwargs q ps kw))"
    if h: "seam_free ''__data__'' (join_str '','' (map (\<lambda>kv. fst kv @ ''=%s'') kw)) ''__data__'' \<and>
          seam_free ''__keys__'' (join_str '','' (map fst kw)) ''__data__''"
  proof -
    from h have h1: "seam_free ''__data__'' N1 ''__data__''"
      and h2: "seam_free ''__keys__'' N2 ''__data__''"
      unfolding N1_def N2_def by blast+
    have d1: "\<not> contains_str ''__data__'' q1"
      unfolding q1_def by (rule replace_removes_all[OF h1]) simp
    have "contains_str ''__data__'' q2 \<Longrightarrow> contains_str ''__data__'' q1"
      unfolding q2_def by (rule replace_keeps_absent[OF h2]) simp_all
    with d1 have d2: "\<not> contains_str ''__data__'' q2" by blast
    have "contains_str ''__data__'' q3 \<Longrightarrow> contains_str ''__data__'' q2"
      unfolding q3_def by (rule replace_keeps_absent[OF s3d]) simp_all
    with d2 show ?thesis unfolding fst_eq by blast
  qed
  from len vals keys datas show ?thesis by blast
qed

theorem rewrite_kwargs_tokens_witness:
  "length (snd (rewrite_kwargs ''INSERT INTO t (__keys__) VALUES (__values__) RETURNING __data__''
      [] [(''user_id'', PInt 1), (''_name'', PStr ''a'')])) = 0 + 2 \<and>
   \<not> contains_str ''__values__'' (fst (rewrite_kwargs
      ''INSERT INTO t (__keys__) VALUES (__values__) RETURNING __data__''
      [] [(''user_id'', PInt 1), (''_name'', PStr ''a'')])) \<and>
   \<not> contains_str ''__keys__'' (fst (rewrite_kwargs
      ''INSERT INTO t (__keys__) VALUES (__values__) RETURNING __data__''
      [] [(''user_id'', PInt 1), (''_name'', PStr ''a'')])) \<and>
   \<not> contains_str ''__data__'' (fst (rewrite_kwargs
      ''INSERT INTO t (__keys__) VALUES (__values__) RETURNING __data__''
      [] [(''user_id'', PInt 1), (''_name'', PStr ''a'')])) \<and>
   \<not> contains_str ''__data__'' (fst (rewrite_kwargs ''UPDATE t SET __data__ WHERE id=%s''
      [PInt 7] [(''user_id'', PInt 1)]))"
proof -
  let ?kw = "[(''user_id'', PInt 1), (''_name'', PStr ''a'')]"
  let ?k1 = "[(''user_id'', PInt 1)]"
  have h1: "?kw \<noteq> []" by simp
  have g1: "?k1 \<noteq> []" by simp
  have h2: "seam_free ''__keys__'' (join_str '','' (map fst ?kw)) ''__keys__''"
    by code_simp
  have h3: "seam_free ''__data__'' (join_str '','' (map (\<lambda>kv. fst kv @ ''=%s'') ?kw)) ''__data__'' \<and>
          seam_free ''__keys__'' (join_str '','' (map fst ?kw)) ''__data__''"
    by code_simp
  have g3: "seam_free ''__data__'' (join_str '','' (map (\<lambda>kv. fst kv @ ''=%s'') ?k1)) ''__data__'' \<and>
          seam_free ''__keys__'' (join_str '','' (map fst ?k1)) ''__data__''"
    by code_simp
  from rewrite_kwargs_tokens[OF h1,
      of "''INSERT INTO t (__keys__) VALUES (__values__) RETURNING __data__''" "[]"] h2 h3
    rewrite_kwargs_tokens[OF g1, of "''UPDATE t SET __data__ WHERE id=%s''" "[PInt 7]"] g3
  show ?thesis by simp
qed

text \<open>
  Claim C3 as it is stated fails: a keyword may itself be spelt like a token.  With the
  single keyword \<open>__keys__=1\<close> the template below, which holds all three tokens, comes back
  with \<open>__keys__\<close> still in it, since \<open>replace\<close> does not look at what it has put in.
\<close>

theorem rewrite_kwargs_tokens_counterexample:
  "contains_str ''__keys__'' ''INSERT INTO t (__keys__) VALUES (__values__) RETURNING __data__'' \<and>
   contains_str ''__values__'' ''INSERT INTO t (__keys__) VALUES (__values__) RETURNING __data__'' \<and>
   contains_str ''__data__'' ''INSERT INTO t (__keys__) VALUES (__values__) RETURNING __data__'' \<and>
   fst (rewrite_kwargs ''INSERT INTO t (__keys__) VALUES (__values__) RETURNING __data__''
          [] [(''__keys__'', PInt 1)]) =
     ''INSERT INTO t (__keys__) VALUES (%s) RETURNING __keys__=%s'' \<and>
   contains_str ''__keys__'' (fst (rewrite_kwargs
      ''INSERT INTO t (__keys__) VALUES (__values__) RETURNING __data__''
      [] [(''__keys__'', PInt 1)]))"
  by code_simp

text \<open>
  The conditions of the theorem on the tokens are not there for the proof only.  A key that
  ends in an underscore, a key that is a piece of a token, and a key that begins with the
  tail of a token each fail \<open>seam_free\<close>, and each leaves a token in some template.
\<close>

lemma seam_needed_examples:
  "\<not> seam_free ''__keys__'' (join_str '','' (map fst [(''id_'', PInt 1)])) ''__keys__''"
  "fst (rewrite_kwargs ''SELECT __keys___keys__, __values__, __data__'' [] [(''id_'', PInt 1)]) =
     ''SELECT id__keys__, %s, id_=%s''"
  "\<not> seam_free ''__keys__'' (join_str '','' (map fst [(''a'', PInt 1)])) ''__data__''"
  "fst (rewrite_kwargs ''SELECT __d__keys__ta__, __keys__, __values__, __data__'' [] [(''a'', PInt 1)]) =
     ''SELECT __data__, a, %s, a=%s''"
  "\<not> seam_free ''__data__'' (join_str '','' (map (\<lambda>kv. fst kv @ ''=%s'') [(''a__b'', PInt 1)]))
       ''__data__''"
  "fst (rewrite_kwargs ''SELECT __dat__data__, __keys__, __values__'' [] [(''a__b'', PInt 1)]) =
     ''SELECT __data__b=%s, a__b, %s''"
  by code_simp+

section \<open>Where the keyword values go\<close>





section \<open>The session-state prefix\<close>

text \<open>
  Claim C5.  When the template does not begin with \<open>set search_path\<close>, a timezone is set
  and a schema override is set (the one-shot one, else the persistent default), the built
  statement is the timezone directive, then the search-path directive, then the template.
\<close>

theorem timezone_precedes_search_path:
  assumes "\<not> starts_set_search_path q" "truthy (timezone c)"
    and "truthy (change_path c) \<or> truthy (search_path c)"
  shows "fst (priv_set_search_path c q) =
           ''set timezone = '' @ [CHR 0x27] @ the (timezone c) @ [CHR 0x27] @ '';'' @
           ''set search_path = '' @
             the (if truthy (change_path c) then change_path c else search_path c) @ '';'' @ q"
  using assms by (auto simp: priv_set_search_path_def)

theorem timezone_precedes_search_path_witness:
  "fst (priv_set_search_path
          (path ((fixture_conn (fixture_driver one_row))\<lparr>search_path := Some ''app''\<rparr>)
                (Some ''tenant''))
          ''select 1'') =
     ''set timezone = '' @ [CHR 0x27] @ ''+00'' @ [CHR 0x27] @
     '';set search_path = tenant;select 1''"
proof -
  let ?c = "path ((fixture_conn (fixture_driver one_row))\<lparr>search_path := Some ''app''\<rparr>)
                 (Some ''tenant'')"
  have h1: "\<not> starts_set_search_path ''select 1''" by code_simp
  have h2: "truthy (timezone ?c)" by code_simp
  have h3: "truthy (change_path ?c) \<or> truthy (search_path ?c)" by code_simp
  have tz: "timezone ?c = Some ''+00''" by code_simp
  have cp: "change_path ?c = Some ''tenant''" by code_simp
  have t: "truthy (change_path ?c)" by code_simp
  from timezone_precedes_search_path[OF h1 h2 h3] show ?thesis
    unfolding tz cp using t by (simp add: cp)
qed

lemma priv_cursor_keeps:
  assumes "priv_cursor d c = (r, c1)"
  shows "change_path c1 = change_path c" "search_path c1 = search_path c"
    "timezone c1 = timezone c" "logging c1 = logging c" "host c1 = host c"
  using assms
  by (auto simp: priv_cursor_def priv_ensure_connected_def reconnect_def Let_def close_def
           split: prod.splits sum.splits option.splits if_splits error.splits)

text \<open>
  Claim C2, as the code has it.  \<open>_set_search_path\<close>, the builder behind \<open>query\<close>,
  \<open>execute\<close>, \<open>get\<close>, \<open>execute_rowcount\<close> and \<open>executemany\<close>, puts the one-shot override
  in front of the template exactly when the override is a non-empty string and the template
  does not begin with \<open>set search_path\<close>, and clears it exactly then; otherwise the override
  is not put in and the connection is left as it was.  When put in, it stands where the
  persistent default would, and the build after it (with no new \<open>path\<close> call) uses the
  persistent default, if any.  \<open>file\<close> puts a non-empty override in front of its script and
  clears it.
\<close>

theorem one_shot_cleared_when_applied:
  "fst (priv_set_search_path c q) =
     (if truthy (timezone c)
      then ''set timezone = '' @ [CHR 0x27] @ the (timezone c) @ [CHR 0x27] @ '';'' else []) @
     (if truthy (change_path c) \<and> \<not> starts_set_search_path q
      then ''set search_path = '' @ the (change_path c) @ '';''
      else if truthy (search_path c) \<and> \<not> starts_set_search_path q
      then ''set search_path = '' @ the (search_path c) @ '';''
      else []) @ q \<and>
   snd (priv_set_search_path c q) =
     (if truthy (change_path c) \<and> \<not> starts_set_search_path q then c\<lparr>change_path := None\<rparr> else c) \<and>
   (truthy (change_path c) \<and> \<not> starts_set_search_path q \<and> \<not> starts_set_search_path q' \<longrightarrow>
      fst (priv_set_search_path (snd (priv_set_search_path c q)) q') =
        (if truthy (timezone c)
         then ''set timezone = '' @ [CHR 0x27] @ the (timezone c) @ [CHR 0x27] @ '';'' else []) @
        (if truthy (search_path c)
         then ''set search_path = '' @ the (search_path c) @ '';'' else []) @ q') \<and>
   (priv_cursor d c = (Inr k, c1) \<longrightarrow>
      trace (snd (file_execute d c sql)) =
        trace c1 @
        [Execute k
           ((if truthy (change_path c) then ''set search_path = '' @ the (change_path c) @ '';''
             else if truthy (search_path c) then ''set search_path = '' @ the (search_path c) @ '';''
             else []) @ sql) []] \<and>
      change_path (snd (file_execute d c sql)) =
        (if truthy (change_path c) then None else change_path c))"
proof (intro conjI impI)
  show "fst (priv_set_search_path c q) =
     (if truthy (timezone c)
      then ''set timezone = '' @ [CHR 0x27] @ the (timezone c) @ [CHR 0x27] @ '';'' else []) @
     (if truthy (change_path c) \<and> \<not> starts_set_search_path q
      then ''set search_path = '' @ the (change_path c) @ '';''
      else if truthy (search_path c) \<and> \<not> starts_set_search_path q
      then ''set search_path = '' @ the (search_path c) @ '';''
      else []) @ q"
    by (simp add: priv_set_search_path_def)
  show "snd (priv_set_search_path c q) =
     (if truthy (change_path c) \<and> \<not> starts_set_search_path q then c\<lparr>change_path := None\<rparr> else c)"
    by (simp add: priv_set_search_path_def)
next
  assume "truthy (change_path c) \<and> \<not> starts_set_search_path q \<and> \<not> starts_set_search_path q'"
  then show "fst (priv_set_search_path (snd (priv_set_search_path c q)) q') =
        (if truthy (timezone c)
         then ''set timezone = '' @ [CHR 0x27] @ the (timezone c) @ [CHR 0x27] @ '';'' else []) @
        (if truthy (search_path c)
         then ''set search_path = '' @ the (search_path c) @ '';'' else []) @ q'"
    by (simp add: priv_set_search_path_def truthy_def)
next
  assume pc: "priv_cursor d c = (Inr k, c1)"
  note keep = priv_cursor_keeps[OF pc]
  show "trace (snd (file_execute d c sql)) =
        trace c1 @
        [Execute k
           ((if truthy (change_path c) then ''set search_path = '' @ the (change_path c) @ '';''
             else if truthy (search_path c) then ''set search_path = '' @ the (search_path c) @ '';''
             else []) @ sql) []]"
    using pc keep by (simp add: file_execute_def Let_def split: sum.splits)
  show "change_path (snd (file_execute d c sql)) =
        (if truthy (change_path c) then None else change_path c)"
    using pc keep by (simp add: file_execute_def Let_def split: sum.splits)
qed

theorem one_shot_cleared_when_applied_witness:
  "change_path (snd (priv_set_search_path
          (path ((fixture_conn (fixture_driver one_row))\<lparr>search_path := Some ''app''\<rparr>)
                (Some ''tenant''))
          ''select 1'')) = None \<and>
   fst (priv_set_search_path
          (path ((fixture_conn (fixture_driver one_row))\<lparr>search_path := Some ''app''\<rparr>)
                (Some ''tenant''))
          ''select 1'') =
     ''set timezone = '' @ [CHR 0x27] @ ''+00'' @ [CHR 0x27] @
     '';set search_path = tenant;select 1'' \<and>
   fst (priv_set_search_path
          (snd (priv_set_search_path
             (path ((fixture_conn (fixture_driver one_row))\<lparr>search_path := Some ''app''\<rparr>)
                   (Some ''tenant''))
             ''select 1''))
          ''select 2'') =
     ''set timezone = '' @ [CHR 0x27] @ ''+00'' @ [CHR 0x27] @
     '';set search_path = app;select 2'' \<and>
   change_path (snd (file_execute (fixture_driver one_row)
          (path ((fixture_conn (fixture_driver one_row))\<lparr>search_path := Some ''app''\<rparr>)
                (Some ''tenant''))
          ''select 1'')) = None"
proof -
  let ?d = "fixture_driver one_row"
  let ?c = "path ((fixture_conn ?d)\<lparr>search_path := Some ''app''\<rparr>) (Some ''tenant'')"
  have h: "truthy (change_path ?c) \<and> \<not> starts_set_search_path ''select 1''" by code_simp
  have h': "\<not> starts_set_search_path ''select 2''" by code_simp
  have pc: "priv_cursor ?d ?c = (Inr 0, snd (priv_cursor ?d ?c))"
    by (rule prod_eqI) (code_simp, simp)
  have tz: "timezone ?c = Some ''+00''" by code_simp
  have cp: "change_path ?c = Some ''tenant''" by code_simp
  have sp: "search_path ?c = Some ''app''" by code_simp
  have t: "truthy (Some ''+00'')" "truthy (Some ''app'')" "truthy (Some ''tenant'')" by code_simp+
  note inst = one_shot_cleared_when_applied[of ?c "''select 1''" "''select 2''" ?d 0
      "snd (priv_cursor ?d ?c)" "''select 1''"]
  from inst h have a: "snd (priv_set_search_path ?c ''select 1'') = ?c\<lparr>change_path := None\<rparr>"
    by simp
  have 1: "change_path (snd (priv_set_search_path ?c ''select 1'')) = None"
    unfolding a by simp
  from inst have b: "fst (priv_set_search_path ?c ''select 1'') =
     (if truthy (timezone ?c)
      then ''set timezone = '' @ [CHR 0x27] @ the (timezone ?c) @ [CHR 0x27] @ '';'' else []) @
     (if truthy (change_path ?c) \<and> \<not> starts_set_search_path ''select 1''
      then ''set search_path = '' @ the (change_path ?c) @ '';''
      else if truthy (search_path ?c) \<and> \<not> starts_set_search_path ''select 1''
      then ''set search_path = '' @ the (search_path ?c) @ '';''
      else []) @ ''select 1''"
    by blast
  have 2: "fst (priv_set_search_path ?c ''select 1'') =
     ''set timezone = '' @ [CHR 0x27] @ ''+00'' @ [CHR 0x27] @
     '';set search_path = tenant;select 1''"
    unfolding b using h t unfolding tz cp sp by simp
  from inst h h' have c: "fst (priv_set_search_path (snd (priv_set_search_path ?c ''select 1''))
          ''select 2'') =
           (if truthy (timezone ?c)
            then ''set timezone = '' @ [CHR 0x27] @ the (timezone ?c) @ [CHR 0x27] @ '';'' else []) @
           (if truthy (search_path ?c)
            then ''set search_path = '' @ the (search_path ?c) @ '';'' else []) @ ''select 2''"
    by blast
  have 3: "fst (priv_set_search_path (snd (priv_set_search_path ?c ''select 1''))
          ''select 2'') =
     ''set timezone = '' @ [CHR 0x27] @ ''+00'' @ [CHR 0x27] @
     '';set search_path = app;select 2''"
    unfolding c tz sp using t by simp
  from inst pc have "change_path (snd (file_execute ?d ?c ''select 1'')) =
        (if truthy (change_path ?c) then None else change_path ?c)"
    by blast
  then have 4: "change_path (snd (file_execute ?d ?c ''select 1'')) = None"
    using h by simp
  from 1 2 3 4 show ?thesis by blast
qed

text \<open>
  Claim C2 as it is stated fails: a build of a statement that already begins with
  \<open>set search_path\<close> leaves the override in place, so the statement after it gets it; and
  an empty override is never cleared.
\<close>

theorem one_shot_cleared_when_applied_counterexample:
  "change_path (snd (priv_set_search_path
          (path (fixture_conn (fixture_driver one_row)) (Some ''tenant''))
          ''SET search_path = public;select 1'')) = Some ''tenant'' \<and>
   fst (priv_set_search_path
          (snd (priv_set_search_path
             (path (fixture_conn (fixture_driver one_row)) (Some ''tenant''))
             ''SET search_path = public;select 1''))
          ''select 2'') =
     ''set timezone = '' @ [CHR 0x27] @ ''+00'' @ [CHR 0x27] @
     '';set search_path = tenant;select 2'' \<and>
   change_path (snd (priv_set_search_path
          (path (fixture_conn (fixture_driver one_row)) (Some []))
          ''select 1'')) = Some []"
  by code_simp

section \<open>Results of \<open>get\<close>\<close>

text \<open>
  Claim C6.  Whatever \<open>query\<close> returns without raising, \<open>get\<close> returns \<open>None\<close> for no
  rows, the row for one row, and raises the multiple-rows error for two or more.
\<close>

theorem get_none_one_or_error:
  assumes "query d c q ps kw = (Inr rows, c')"
  shows "(rows = None \<or> rows = Some [] \<longrightarrow> get d c q ps kw = (Inr None, c')) \<and>
         (\<forall>r. rows = Some [r] \<longrightarrow> get d c q ps kw = (Inr (Some r), c')) \<and>
         (\<forall>rs. rows = Some rs \<and> 2 \<le> length rs \<longrightarrow> get d c q ps kw = (Inl MultipleRows, c'))"
  using assms by (auto simp: get_def)

theorem get_none_one_or_error_witness:
  "fst (get (fixture_driver no_rows) (fixture_conn (fixture_driver no_rows))
          ''select * from t'' [] []) = Inr None \<and>
   fst (get (fixture_driver one_row) (fixture_conn (fixture_driver one_row))
          ''select * from t'' [] []) = Inr (Some [(''id'', PInt 1), (''name'', PStr ''a'')]) \<and>
   fst (get (fixture_driver two_rows) (fixture_conn (fixture_driver two_rows))
          ''select * from t'' [] []) = Inl MultipleRows"
proof -
  let ?q = "\<lambda>cs. query (fixture_driver cs) (fixture_conn (fixture_driver cs)) ''select * from t'' [] []"
  have q0: "?q no_rows = (Inr (Some []), snd (?q no_rows))"
    by (rule prod_eqI) (code_simp, simp)
  have q1: "?q one_row = (Inr (Some [[(''id'', PInt 1), (''name'', PStr ''a'')]]), snd (?q one_row))"
    by (rule prod_eqI) (code_simp, simp)
  have q2: "?q two_rows = (Inr (Some [[(''id'', PInt 1), (''name'', PStr ''a'')],
                                      [(''id'', PInt 2), (''name'', PStr ''b'')]]), snd (?q two_rows))"
    by (rule prod_eqI) (code_simp, simp)
  from get_none_one_or_error[OF q0] get_none_one_or_error[OF q1] get_none_one_or_error[OF q2]
  show ?thesis by simp
qed


section \<open>Results of \<open>query\<close>\<close>

text \<open>
  Claim C7, as the code has it.  After a successful execution \<open>query\<close> returns, for a
  description with at least one column, the rows built by zipping the column names with
  each result tuple; it returns \<open>None\<close> when the description is \<open>None\<close> or has no column,
  since the source tests the description for truth.
\<close>

theorem query_rows_or_none:
  assumes "priv_cursor d c = (Inr k, c1)" and "priv_execute d c1 k q ps kw = (Inr cs, c2)"
  shows "(\<forall>names. description cs = Some names \<and> names \<noteq> [] \<longrightarrow>
            query d c q ps kw = (Inr (Some (map (\<lambda>r. Row (zip names r)) (fetchall cs))), c2)) \<and>
         (description cs = None \<or> description cs = Some [] \<longrightarrow>
            query d c q ps kw = (Inr None, c2))"
  using assms by (auto simp: query_def split: list.splits)

theorem query_rows_or_none_witness:
  "fst (query (fixture_driver one_row) (fixture_conn (fixture_driver one_row))
          ''select * from t'' [] []) = Inr (Some [[(''id'', PInt 1), (''name'', PStr ''a'')]]) \<and>
   fst (query (fixture_driver no_result) (fixture_conn (fixture_driver no_result))
          ''delete from t'' [] []) = Inr None"
proof -
  let ?d1 = "fixture_driver one_row"
  let ?c1 = "fixture_conn ?d1"
  let ?d0 = "fixture_driver no_result"
  let ?c0 = "fixture_conn ?d0"
  have a1: "priv_cursor ?d1 ?c1 = (Inr 0, snd (priv_cursor ?d1 ?c1))"
    by (rule prod_eqI) (code_simp, simp)
  have b1: "priv_execute ?d1 (snd (priv_cursor ?d1 ?c1)) 0 ''select * from t'' [] [] =
              (Inr one_row, snd (priv_execute ?d1 (snd (priv_cursor ?d1 ?c1)) 0 ''select * from t'' [] []))"
    by (rule prod_eqI) (code_simp, simp)
  have a0: "priv_cursor ?d0 ?c0 = (Inr 0, snd (priv_cursor ?d0 ?c0))"
    by (rule prod_eqI) (code_simp, simp)
  have b0: "priv_execute ?d0 (snd (priv_cursor ?d0 ?c0)) 0 ''delete from t'' [] [] =
              (Inr no_result, snd (priv_execute ?d0 (snd (priv_cursor ?d0 ?c0)) 0 ''delete from t'' [] []))"
    by (rule prod_eqI) (code_simp, simp)
  have d1: "description one_row = Some [''id'', ''name''] \<and> [''id'', ''name''] \<noteq> []"
    by (simp add: one_row_def)
  have d0: "description no_result = None \<or> description no_result = Some []"
    by (simp add: no_result_def)
  have r: "map (\<lambda>r. Row (zip [''id'', ''name''] r)) (fetchall one_row) =
             [[(''id'', PInt 1), (''name'', PStr ''a'')]]"
    by code_simp
  from query_rows_or_none[OF a1 b1] d1
  have "query ?d1 ?c1 ''select * from t'' [] [] =
          (Inr (Some (map (\<lambda>r. Row (zip [''id'', ''name''] r)) (fetchall one_row))),
           snd (priv_execute ?d1 (snd (priv_cursor ?d1 ?c1)) 0 ''select * from t'' [] []))"
    by blast
  then have 1: "fst (query ?d1 ?c1 ''select * from t'' [] []) =
      Inr (Some [[(''id'', PInt 1), (''name'', PStr ''a'')]])"
    unfolding r by simp
  from query_rows_or_none[OF a0 b0] d0
  have "query ?d0 ?c0 ''delete from t'' [] [] =
          (Inr None, snd (priv_execute ?d0 (snd (priv_cursor ?d0 ?c0)) 0 ''delete from t'' [] []))"
    by blast
  then have 0: "fst (query ?d0 ?c0 ''delete from t'' [] []) = Inr None" by simp
  from 1 0 show ?thesis by blast
qed

text \<open>
  Claim C7 as it is stated fails for a result set without columns (\<open>SELECT FROM t\<close>): the
  driver reports the empty description, and \<open>query\<close> returns \<open>None\<close>, not the rows.
\<close>

theorem query_rows_or_none_counterexample:
  "description no_columns = Some [] \<and> fetchall no_columns = [[]] \<and>
   fst (query (fixture_driver no_columns) (fixture_conn (fixture_driver no_columns))
          ''select from t'' [] []) = Inr None"
  by code_simp

section \<open>Operational failures\<close>

lemma close_fields:
  "db (close c) = None" "host (close c) = host c" "logged (close c) = logged c"
  "sessions (close c) = sessions c" "cursors (close c) = cursors c"
  "db c = Some s \<Longrightarrow> trace (close c) = trace c @ [CloseSession s]"
  by (auto simp: close_def split: option.splits)

lemma on_operational_fields:
  "db (on_operational fmt c (OperationalError m)) = None"
  "logged (on_operational fmt c (OperationalError m)) = logged c @ [LogError fmt [host c, m]]"
  "sessions (on_operational fmt c e) = sessions c"
  "db c = Some s \<Longrightarrow> trace (on_operational fmt c (OperationalError m)) = trace c @ [CloseSession s]"
  by (auto simp: on_operational_def close_fields split: error.splits)

lemma set_search_path_fields:
  "db (snd (priv_set_search_path c q)) = db c"
  "host (snd (priv_set_search_path c q)) = host c"
  "logged (snd (priv_set_search_path c q)) = logged c"
  "trace (snd (priv_set_search_path c q)) = trace c"
  "sessions (snd (priv_set_search_path c q)) = sessions c"
  "logging (snd (priv_set_search_path c q)) = logging c"
  by (auto simp: priv_set_search_path_def)

lemma log_statement_fields:
  assumes "log_statement d c k q ps = (r, c')"
  shows "db c' = db c" "host c' = host c" "sessions c' = sessions c"
    "\<exists>t. trace c' = trace c @ t" "\<exists>l. logged c' = logged c @ l"
  using assms by (auto simp: log_statement_def split: if_splits sum.splits)

lemma priv_cursor_ok:
  assumes "priv_cursor d c = (Inr k, c1)"
  shows "\<exists>s. db c1 = Some s" "host c1 = host c"
  using assms
  by (auto simp: priv_cursor_def priv_ensure_connected_def reconnect_def Let_def close_def
           split: prod.splits sum.splits option.splits if_splits error.splits)

lemma priv_execute_operational:
  assumes "priv_execute d c k q ps kw = (Inl (OperationalError m), c')" "db c = Some s"
  shows "db c' = None"
    "LogError ''Error connecting to PostgreSQL on %s, %s'' [host c, m] \<in> set (logged c')"
    "CloseSession s \<in> set (trace c')" "sessions c' = sessions c"
proof -
  obtain q1 c1 where sp: "priv_set_search_path c q = (q1, c1)" by force
  obtain q2 ps2 where rw: "(if kw \<noteq> [] then rewrite_kwargs q1 ps kw else (q1, ps)) = (q2, ps2)"
    by force
  obtain r c2 where ls: "log_statement d c1 k q2 ps2 = (r, c2)" by force
  have c1: "db c1 = db c" "host c1 = host c" "sessions c1 = sessions c"
    using set_search_path_fields[of c q] sp by simp_all
  note c2 = log_statement_fields[OF ls]
  let ?fmt = "''Error connecting to PostgreSQL on %s, %s''"
  let ?c3 = "c2\<lparr>trace := trace c2 @ [Execute k q2 ps2]\<rparr>"
  from assms(1) sp rw ls
  have "c' = on_operational ?fmt c2 (OperationalError m) \<or>
        c' = on_operational ?fmt ?c3 (OperationalError m)"
    by (auto simp: priv_execute_def Let_def split: sum.splits)
  then show "db c' = None"
    "LogError ''Error connecting to PostgreSQL on %s, %s'' [host c, m] \<in> set (logged c')"
    "CloseSession s \<in> set (trace c')" "sessions c' = sessions c"
    using c1 c2 assms(2) by (auto simp: on_operational_fields)
qed

lemma reconnect_healthy:
  assumes "drv_connect d (close c) = None"
    and "\<And>x. drv_register_hstore d x = None"
  shows "\<exists>c1. reconnect d c = (Inr (), c1) \<and> db c1 = Some (sessions c) \<and>
           sessions c1 = Suc (sessions c)"
  using assms by (simp add: reconnect_def Let_def close_fields)

lemma query_healthy:
  assumes "db c = None"
    and "\<And>x. drv_connect d x = None" "\<And>x. drv_register_hstore d x = None"
    and "\<And>x. drv_cursor d x = None"
    and "\<And>x k q ps. drv_execute d x k q ps = Inr cs"
    and "\<And>x k q ps. \<not> isl (drv_mogrify d x k q ps)"
  shows "\<exists>rows c4. query d c q ps kw = (Inr rows, c4) \<and> db c4 = Some (sessions c) \<and>
           sessions c4 = Suc (sessions c)"
proof -
  obtain c1 where rc: "reconnect d c = (Inr (), c1)" "db c1 = Some (sessions c)"
      "sessions c1 = Suc (sessions c)"
    using reconnect_healthy[of d c, OF assms(2)[of "close c"] assms(3)] by blast
  let ?c2 = "c1\<lparr>cursors := Suc (cursors c1), trace := trace c1 @ [OpenCursor (cursors c1)]\<rparr>"
  have cur: "priv_cursor d c = (Inr (cursors c1), ?c2)"
    using rc assms(1,4) by (simp add: priv_cursor_def priv_ensure_connected_def)
  obtain q1 c3 where sp: "priv_set_search_path ?c2 q = (q1, c3)" by force
  obtain q2 ps2 where rw: "(if kw \<noteq> [] then rewrite_kwargs q1 ps kw else (q1, ps)) = (q2, ps2)"
    by force
  have c3: "db c3 = db ?c2" "sessions c3 = sessions ?c2"
    using set_search_path_fields[of ?c2 q] sp by simp_all
  obtain r c4 where ls: "log_statement d c3 (cursors c1) q2 ps2 = (r, c4)" by force
  have r: "r = Inr ()"
    using ls assms(6)[of c3 "cursors c1" q2 ps2]
    by (auto simp: log_statement_def split: if_splits sum.splits)
  note c4 = log_statement_fields[OF ls]
  have ex: "priv_execute d ?c2 (cursors c1) q ps kw =
              (Inr cs, c4\<lparr>trace := trace c4 @ [Execute (cursors c1) q2 ps2]\<rparr>)"
    using sp rw ls r assms(5) by (simp add: priv_execute_def Let_def)
  show ?thesis
    using cur ex c3 c4 rc by (auto simp: query_def split: option.splits list.splits)
qed

lemma priv_executemany_operational:
  assumes "priv_executemany d c k q ps = (Inl (OperationalError m), c')" "db c = Some s"
  shows "db c' = None"
    "LogError ''Error connecting to PostgreSQL on %s, e'' [host c, m] \<in> set (logged c')"
    "CloseSession s \<in> set (trace c')" "sessions c' = sessions c"
proof -
  obtain q1 c1 where sp: "priv_set_search_path c q = (q1, c1)" by force
  obtain r c2 where ls: "log_statement d c1 k q1 ps = (r, c2)" by force
  have c1: "db c1 = db c" "host c1 = host c" "sessions c1 = sessions c"
    using set_search_path_fields[of c q] sp by simp_all
  note c2 = log_statement_fields[OF ls]
  let ?fmt = "''Error connecting to PostgreSQL on %s, e''"
  let ?c3 = "c2\<lparr>trace := trace c2 @ [ExecuteMany k q1 ps]\<rparr>"
  from assms(1) sp ls
  have "c' = on_operational ?fmt c2 (OperationalError m) \<or>
        c' = on_operational ?fmt ?c3 (OperationalError m)"
    by (auto simp: priv_executemany_def Let_def split: sum.splits option.splits)
  then show "db c' = None"
    "LogError ''Error connecting to PostgreSQL on %s, e'' [host c, m] \<in> set (logged c')"
    "CloseSession s \<in> set (trace c')" "sessions c' = sessions c"
    using c1 c2 assms(2) by (auto simp: on_operational_fields)
qed

lemma executemany_operational_failure:
  assumes "priv_cursor d c = (Inr k, c1)"
    and "priv_executemany d c1 k q ps = (Inl (OperationalError m), c2)"
  shows "\<exists>c3. executemany d c q ps = (Inl (OperationalError m), c3) \<and> db c3 = None \<and>
           LogError ''Error connecting to PostgreSQL on %s, e'' [host c, m] \<in> set (logged c3)"
proof -
  obtain s where s: "db c1 = Some s" using priv_cursor_ok(1)[OF assms(1)] by blast
  have h: "host c1 = host c" using priv_cursor_ok(2)[OF assms(1)] .
  note e = priv_executemany_operational[OF assms(2) s]
  have "executemany d c q ps = (Inl (OperationalError m), close_cursor k c2)"
    using assms by (simp add: executemany_def)
  then show ?thesis using e h by (simp add: close_cursor_def)
qed

lemma reconnect_connects:
  assumes "db c = None" "drv_connect d (close c) = None"
  shows "\<exists>t. trace (snd (reconnect d c)) = trace c @ Connect # t"
  using assms by (auto simp: reconnect_def Let_def close_def split: option.splits error.splits)

lemma query_trace_extends:
  "\<exists>t. trace (snd (query d c q ps kw)) = trace (snd (priv_ensure_connected d c)) @ t"
proof -
  have ex: "\<exists>t. trace (snd (priv_execute d c1 k q ps kw)) = trace c1 @ t" for c1 k
  proof -
    obtain q1 c2 where sp: "priv_set_search_path c1 q = (q1, c2)" by force
    obtain q2 ps2 where rw: "(if kw \<noteq> [] then rewrite_kwargs q1 ps kw else (q1, ps)) = (q2, ps2)"
      by force
    obtain r c3 where ls: "log_statement d c2 k q2 ps2 = (r, c3)" by force
    have t2: "trace c2 = trace c1" using set_search_path_fields[of c1 q] sp by simp
    from log_statement_fields(4)[OF ls] obtain t3 where t3: "trace c3 = trace c2 @ t3" by blast
    show ?thesis
      using sp rw ls t2 t3
      by (auto simp: priv_execute_def Let_def on_operational_def close_def
               split: sum.splits error.splits option.splits)
  qed
  obtain r0 c0 where ec: "priv_ensure_connected d c = (r0, c0)" by force
  show ?thesis
  proof (cases "priv_cursor d c")
    case (Pair r c1)
    show ?thesis
    proof (cases r)
      case (Inl e)
      with Pair ec show ?thesis
        by (auto simp: query_def priv_cursor_def split: prod.splits sum.splits option.splits)
    next
      case (Inr k)
      with Pair ec have c1: "\<exists>t. trace c1 = trace c0 @ t"
        by (auto simp: priv_cursor_def split: prod.splits sum.splits option.splits)
      from ex[of c1 k] obtain t where "trace (snd (priv_execute d c1 k q ps kw)) = trace c1 @ t"
        by blast
      with Pair Inr c1 ec show ?thesis
        by (auto simp: query_def close_cursor_def split: prod.splits sum.splits option.splits list.splits)
    qed
  qed
qed

lemma query_operational_failure_then_reconnect:
  assumes "priv_cursor d c = (Inr k, c1)"
    and "priv_execute d c1 k q ps kw = (Inl (OperationalError m), c2)"
    and "\<And>x. drv_connect d' x = None" "\<And>x. drv_register_hstore d' x = None"
    and "\<And>x. drv_cursor d' x = None"
    and "\<And>x k q ps. drv_execute d' x k q ps = Inr cs"
    and "\<And>x k q ps. \<not> isl (drv_mogrify d' x k q ps)"
  shows "\<exists>c3. query d c q ps kw = (Inl (OperationalError m), c3) \<and>
           db c3 = None \<and>
           LogError ''Error connecting to PostgreSQL on %s, %s'' [host c, m] \<in> set (logged c3) \<and>
           (\<exists>s. db c1 = Some s \<and> CloseSession s \<in> set (trace c3)) \<and>
           (\<exists>rows c4 t. query d' c3 q' ps' kw' = (Inr rows, c4) \<and>
              db c4 = Some (sessions c3) \<and> sessions c4 = Suc (sessions c3) \<and>
              trace c4 = trace c3 @ Connect # t)"
proof -
  obtain s where s: "db c1 = Some s" using priv_cursor_ok(1)[OF assms(1)] by blast
  have h: "host c1 = host c" using priv_cursor_ok(2)[OF assms(1)] .
  note e = priv_execute_operational[OF assms(2) s]
  let ?c3 = "close_cursor k c2"
  have q: "query d c q ps kw = (Inl (OperationalError m), ?c3)"
    using assms(1,2) by (simp add: query_def)
  have f: "db ?c3 = None" "logged ?c3 = logged c2" "CloseSession s \<in> set (trace ?c3)"
    using e by (simp_all add: close_cursor_def)
  from query_healthy[OF f(1) assms(3-7)]
  obtain rows c4 where r: "query d' ?c3 q' ps' kw' = (Inr rows, c4)" "db c4 = Some (sessions ?c3)"
      "sessions c4 = Suc (sessions ?c3)" by blast
  from reconnect_connects[OF f(1) assms(3)]
  obtain t1 where t1: "trace (snd (reconnect d' ?c3)) = trace ?c3 @ Connect # t1" by blast
  from query_trace_extends[of d' ?c3 q' ps' kw']
  obtain t2 where "trace (snd (query d' ?c3 q' ps' kw')) = trace (snd (priv_ensure_connected d' ?c3)) @ t2"
    by blast
  with t1 f(1) r(1) have "trace c4 = trace ?c3 @ Connect # (t1 @ t2)"
    by (simp add: priv_ensure_connected_def)
  with q f e h s r show ?thesis by auto
qed

section \<open>What \<open>query\<close> sends for keyword arguments\<close>







section \<open>Where the source departs from its contract\<close>

lemma priv_execute_one_round_trip:
  assumes "\<not> logging c" and "fst (priv_execute d c k q ps []) = Inr cs"
  shows "trace (snd (priv_execute d c k q ps [])) =
           trace c @ [Execute k (fst (priv_set_search_path c q)) ps]"
proof -
  obtain q1 c1 where sp: "priv_set_search_path c q = (q1, c1)" by force
  have f: "trace c1 = trace c" "logging c1 = logging c"
    using set_search_path_fields[of c q] sp by simp_all
  show ?thesis
    using sp f assms
    by (auto simp: priv_execute_def log_statement_def Let_def split: sum.splits)
qed

lemma priv_executemany_one_round_trip:
  assumes "\<not> logging c" and "fst (priv_executemany d c k q ps) = Inr u"
  shows "trace (snd (priv_executemany d c k q ps)) =
           trace c @ [ExecuteMany k (fst (priv_set_search_path c q)) ps]"
proof -
  obtain q1 c1 where sp: "priv_set_search_path c q = (q1, c1)" by force
  have f: "trace c1 = trace c" "logging c1 = logging c"
    using set_search_path_fields[of c q] sp by simp_all
  show ?thesis
    using sp f assms
    by (auto simp: priv_executemany_def log_statement_def Let_def split: option.splits)
qed

text \<open>
  Claim C1 says that every entry point sends the statement with the timezone and
  search-path prefix.  \<open>query\<close> does (and \<open>executemany\<close>, by the lemmas above, in one
  driver call), but \<open>mogrify\<close> hands the bare template to the driver, and \<open>file\<close> adds the
  search-path directive only, also in front of a script that sets the search path itself.
\<close>

theorem prefix_not_applied_by_mogrify_and_file:
  "trace (snd (query (fixture_driver one_row) (fixture_conn (fixture_driver one_row))
                 ''select 1'' [] [])) =
     [Connect, RegisterType ''MONEY'', RegisterHstore 0, OpenCursor 0,
      Execute 0 (''set timezone = '' @ [CHR 0x27] @ ''+00'' @ [CHR 0x27] @ '';select 1'') []] \<and>
   trace (snd (mogrify (fixture_driver one_row) (fixture_conn (fixture_driver one_row))
                 ''select 1'' [])) =
     [Connect, RegisterType ''MONEY'', RegisterHstore 0, OpenCursor 0,
      Mogrify 0 ''select 1'' []] \<and>
   trace (snd (file_execute (fixture_driver one_row)
                 ((fixture_conn (fixture_driver one_row))\<lparr>search_path := Some ''app''\<rparr>)
                 ''select 1'')) =
     [Connect, RegisterType ''MONEY'', RegisterHstore 0, OpenCursor 0,
      Execute 0 ''set search_path = app;select 1'' []] \<and>
   trace (snd (file_execute (fixture_driver one_row)
                 ((fixture_conn (fixture_driver one_row))\<lparr>search_path := Some ''app''\<rparr>)
                 ''SET search_path = x;select 1'')) =
     [Connect, RegisterType ''MONEY'', RegisterHstore 0, OpenCursor 0,
      Execute 0 ''set search_path = app;SET search_path = x;select 1'' []]"
  by code_simp

lemma query_closes_cursor_on_error:
  assumes "priv_cursor d c = (Inr k, c1)" and "priv_execute d c1 k q ps kw = (Inl e, c2)"
  shows "query d c q ps kw = (Inl e, close_cursor k c2)"
    and "CloseCursor k \<in> set (trace (snd (query d c q ps kw)))"
  using assms by (simp_all add: query_def close_cursor_def)

lemma execute_rowcount_closes_cursor:
  assumes "priv_cursor d c = (Inr k, c1)"
  shows "CloseCursor k \<in> set (trace (snd (execute_rowcount d c q ps kw)))"
  using assms by (auto simp: execute_rowcount_def close_cursor_def split: prod.splits sum.splits)

text \<open>
  Claim C9 says that the cursor is closed on every exit path.  It is closed when the call
  raises, and always by \<open>execute_rowcount\<close>; on a normal return \<open>query\<close>, \<open>mogrify\<close>
  and \<open>executemany\<close> leave it open.
\<close>

theorem cursor_left_open_on_return:
  "\<not> isl (fst (query (fixture_driver one_row) (fixture_conn (fixture_driver one_row))
                  ''select 1'' [] [])) \<and>
   OpenCursor 0 \<in> set (trace (snd (query (fixture_driver one_row)
                  (fixture_conn (fixture_driver one_row)) ''select 1'' [] []))) \<and>
   CloseCursor 0 \<notin> set (trace (snd (query (fixture_driver one_row)
                  (fixture_conn (fixture_driver one_row)) ''select 1'' [] []))) \<and>
   CloseCursor 0 \<notin> set (trace (snd (mogrify (fixture_driver one_row)
                  (fixture_conn (fixture_driver one_row)) ''select 1'' []))) \<and>
   CloseCursor 0 \<notin> set (trace (snd (executemany (fixture_driver one_row)
                  (fixture_conn (fixture_driver one_row)) ''insert into t values (%s)''
                  [PTuple [PInt 1], PTuple [PInt 2]]))) \<and>
   CloseCursor 0 \<in> set (trace (snd (execute_rowcount (fixture_driver one_row)
                  (fixture_conn (fixture_driver one_row)) ''select 1'' [] [])))"
  by code_simp

lemma execute_without_keywords: "execute d c q ps [] = query d c q ps []"
  by (simp add: execute_def)

text \<open>
  Claim C10 says that \<open>execute\<close> is \<open>query\<close>.  It is for positional parameters (the lemma
  above); with a keyword argument \<open>execute\<close> raises a TypeError, where \<open>query\<close> rewrites
  the template and runs it.
\<close>

theorem execute_rejects_keywords:
  "execute (fixture_driver no_result) (fixture_conn (fixture_driver no_result))
      ''INSERT INTO t (__keys__) VALUES (__values__)'' [] [(''id'', PInt 1)] =
     (Inl UnexpectedKeyword, fixture_conn (fixture_driver no_result)) \<and>
   fst (query (fixture_driver no_result) (fixture_conn (fixture_driver no_result))
      ''INSERT INTO t (__keys__) VALUES (__values__)'' [] [(''id'', PInt 1)]) = Inr None \<and>
   Execute 0 (''set timezone = '' @ [CHR 0x27] @ ''+00'' @ [CHR 0x27] @
              '';INSERT INTO t (id) VALUES (%s)'') [PInt 1]
     \<in> set (trace (snd (query (fixture_driver no_result) (fixture_conn (fixture_driver no_result))
      ''INSERT INTO t (__keys__) VALUES (__values__)'' [] [(''id'', PInt 1)])))"
  by code_simp


text \<open>
  Claim C8 says that every operational failure during statement execution is logged with
  the host, closes the session and is raised again, so that the next call reconnects by
  itself.  \<open>query\<close> does all of it (the lemmas of the section on operational failures), and
  so does \<open>executemany\<close>, though with a format string that has one marker for its two
  arguments.  \<open>file\<close> has no handler: the same failure leaves the session open and logs
  nothing, and the next call runs on the old session without a reconnect.
\<close>

theorem file_failure_leaves_session_open:
  "fst (file_execute (flaky_driver one_row) (fixture_conn (flaky_driver one_row)) ''select 1'') =
     Inl (OperationalError ''server closed'') \<and>
   db (snd (file_execute (flaky_driver one_row) (fixture_conn (flaky_driver one_row))
              ''select 1'')) = Some 0 \<and>
   logged (snd (file_execute (flaky_driver one_row) (fixture_conn (flaky_driver one_row))
              ''select 1'')) = [] \<and>
   trace (snd (query (fixture_driver one_row)
                 (snd (file_execute (flaky_driver one_row) (fixture_conn (flaky_driver one_row))
                         ''select 1''))
                 ''select 1'' [] [])) =
     [Connect, RegisterType ''MONEY'', RegisterHstore 0, OpenCursor 0, Execute 0 ''select 1'' [],
      OpenCursor 1,
      Execute 1 (''set timezone = '' @ [CHR 0x27] @ ''+00'' @ [CHR 0x27] @ '';select 1'') []] \<and>
   snd (query (flaky_driver one_row) (fixture_conn (flaky_driver one_row)) ''select 1'' [] []) =
     (fixture_conn (flaky_driver one_row))
       \<lparr>db := None,
        logged := [LogError ''Error connecting to PostgreSQL on %s, %s''
                     [''127.0.0.1'', ''server closed'']],
        trace := [Connect, RegisterType ''MONEY'', RegisterHstore 0, OpenCursor 0,
                  Execute 0 (''set timezone = '' @ [CHR 0x27] @ ''+00'' @ [CHR 0x27] @
                             '';select 1'') [],
                  CloseSession 0, CloseCursor 0],
        cursors := 1\<rparr> \<and>
   trace (snd (query (fixture_driver one_row)
                 (snd (query (flaky_driver one_row) (fixture_conn (flaky_driver one_row))
                         ''select 1'' [] []))
                 ''select 1'' [] [])) =
     [Connect, RegisterType ''MONEY'', RegisterHstore 0, OpenCursor 0,
      Execute 0 (''set timezone = '' @ [CHR 0x27] @ ''+00'' @ [CHR 0x27] @ '';select 1'') [],
      CloseSession 0, CloseCursor 0,
      Connect, RegisterType ''MONEY'', RegisterHstore 1, OpenCursor 1,
      Execute 1 (''set timezone = '' @ [CHR 0x27] @ ''+00'' @ [CHR 0x27] @ '';select 1'') []] \<and>
   logged (snd (executemany (flaky_driver one_row) (fixture_conn (flaky_driver one_row))
                  ''insert into t values (%s)'' [PTuple [PInt 1]])) =
     [LogError ''Error connecting to PostgreSQL on %s, e'' [''127.0.0.1'', ''server closed'']] \<and>
   db (snd (executemany (flaky_driver one_row) (fixture_conn (flaky_driver one_row))
                  ''insert into t values (%s)'' [PTuple [PInt 1]])) = None"
  by code_simp

end
